theory Spec2Isabelle
  imports Complex_Main "HOL-Library.Sublist"
begin

section \<open>Data extracted from the PDF page\<close>

text \<open>
  The program reads the first page of a PDF and gets dictionaries of positioned words
  and lines.  Page coordinates are modelled as exact real numbers; the rounding of the
  interpreter's binary floating point is outside of this model.  Strings are byte strings.

  A line carries the keys \<^verbatim>\<open>top\<close>, \<^verbatim>\<open>bottom\<close>, \<^verbatim>\<open>x0\<close>, \<^verbatim>\<open>x1\<close>.  The table test reads
  only \<^verbatim>\<open>top\<close> and \<^verbatim>\<open>bottom\<close>, and the orchestrator also calls it on a two-key dictionary
  built from a word, so the vertical span is the base record and a line extends it.
\<close>

record vspan =
  v_top :: real
  v_bottom :: real

record line = vspan +
  l_x0 :: real
  l_x1 :: real

text \<open>
  A word: \<^verbatim>\<open>fontname\<close> is read with \<^verbatim>\<open>word.get("fontname", "")\<close>, so it may be absent;
  the other keys are read with \<^verbatim>\<open>w[...]\<close>.
\<close>

record word =
  w_text :: string
  w_top :: real
  w_bottom :: real
  w_x0 :: real
  w_x1 :: real
  w_fontname :: "string option"
  w_size :: real

text \<open>A table bounding box is the tuple \<^verbatim>\<open>(x0, top, x1, bottom)\<close>.\<close>

type_synonym bbox = "real \<times> real \<times> real \<times> real"

text \<open>A table grid: rows of cells, each a string or \<^verbatim>\<open>None\<close>.\<close>

type_synonym grid = "string option list list"

record extraction =
  ex_words :: "word list"
  ex_lines :: "line list"
  ex_page_width :: real
  ex_tables :: "grid list"
  ex_table_bboxes :: "bbox list"

section \<open>Errors\<close>

text \<open>
  Every exception is a value.  An \<^verbatim>\<open>IndexError\<close> records the subscript expression that
  raised it, as the traceback does.
\<close>

datatype subscript = Grid_cell | Col_widths | Row_cells | Table_rows

datatype py_error =
    IndexError subscript
  | InvalidSpanError
  | ExtractionError
  | SaveError

section \<open>Helper functions\<close>

text \<open>\<^verbatim>\<open>needle in haystack\<close> on strings: the needle occurs as a contiguous substring.\<close>

fun str_in :: "string \<Rightarrow> string \<Rightarrow> bool" where
  "str_in needle [] = (needle = [])"
| "str_in needle (c # cs) = (prefix needle (c # cs) \<or> str_in needle cs)"

definition fontname_or_empty :: "word \<Rightarrow> string" where
  "fontname_or_empty w = (case w_fontname w of None \<Rightarrow> [] | Some f \<Rightarrow> f)"

definition is_bold :: "word \<Rightarrow> bool" where
  "is_bold w = str_in ''Bold'' (fontname_or_empty w)"

definition is_centered :: "line \<Rightarrow> real \<Rightarrow> bool" where
  "is_centered lin page_center =
     (let x0 = l_x0 lin; x1 = l_x1 lin in \<bar>(x0 + x1) / 2 - page_center\<bar> < 20)"

definition get_words_for_line :: "line \<Rightarrow> word list \<Rightarrow> real \<Rightarrow> word list" where
  "get_words_for_line lin ws threshold = filter (\<lambda>w. \<bar>w_top w - v_top lin\<bar> < threshold) ws"

definition is_line_inside_table :: "'a vspan_scheme \<Rightarrow> bbox \<Rightarrow> real \<Rightarrow> bool" where
  "is_line_inside_table lin table_bbox tol =
     (case table_bbox of (x0, t_top, x1, t_bottom) \<Rightarrow>
        v_top lin \<ge> t_top - tol \<and> v_bottom lin \<le> t_bottom + tol)"

section \<open>The output document\<close>

text \<open>
  The document object of the word-processor library, with the parts of it that the
  program touches.  Lengths are integers in English Metric Units, as the library's
  \<^verbatim>\<open>Length\<close> class stores them.
\<close>

datatype alignment = LEFT | CENTER | RIGHT | JUSTIFY | DISTRIBUTE

record run =
  r_text :: string
  r_bold :: "bool option"
  r_size :: "int option"
  r_font_name :: "string option"

record docx_paragraph =
  p_alignment :: "alignment option"
  p_runs :: "run list"

text \<open>
  A table cell element.  A horizontally merged cell is one element whose \<open>grid_span\<close>
  counts the grid columns it covers.
\<close>

record tc =
  tc_paragraphs :: "docx_paragraph list"
  grid_span :: nat
  tc_width :: "int option"

record docx_table =
  t_style :: "string option"
  t_rows :: "tc list list"

datatype block = Paragraph docx_paragraph | Table docx_table

record document =
  page_width :: int
  top_margin :: int
  bottom_margin :: int
  left_margin :: int
  right_margin :: int
  body :: "block list"

definition Pt :: "int \<Rightarrow> int" where
  "Pt points = points * 12700"

definition Cm :: "int \<Rightarrow> int" where
  "Cm cm = cm * 360000"

definition Inches :: "real \<Rightarrow> int" where
  "Inches inches = (if inches \<ge> 0 then \<lfloor>inches * 914400\<rfloor> else \<lceil>inches * 914400\<rceil>)"

definition empty_run :: run where
  "empty_run = \<lparr>r_text = [], r_bold = None, r_size = None, r_font_name = None\<rparr>"

definition empty_paragraph :: docx_paragraph where
  "empty_paragraph = \<lparr>p_alignment = None, p_runs = []\<rparr>"

subsection \<open>Python list subscripts\<close>

text \<open>\<^verbatim>\<open>xs[i]\<close>: a negative index counts from the end, an index out of range raises.\<close>

definition subscr :: "subscript \<Rightarrow> 'a list \<Rightarrow> int \<Rightarrow> py_error + 'a" where
  "subscr site xs i =
     (if 0 \<le> i \<and> i < int (length xs) then Inr (xs ! nat i)
      else if i < 0 \<and> - int (length xs) \<le> i then Inr (xs ! nat (int (length xs) + i))
      else Inl (IndexError site))"

subsection \<open>Operations of the document library\<close>

text \<open>\<^verbatim>\<open>doc.add_paragraph()\<close> appends an empty paragraph to the body.\<close>

definition add_paragraph :: "document \<Rightarrow> document" where
  "add_paragraph doc = doc\<lparr>body := body doc @ [Paragraph empty_paragraph]\<rparr>"

text \<open>\<^verbatim>\<open>p.add_run(text)\<close> appends a run with that text and no formatting of its own.\<close>

definition add_run :: "docx_paragraph \<Rightarrow> string \<Rightarrow> docx_paragraph" where
  "add_run p txt = p\<lparr>p_runs := p_runs p @ [empty_run\<lparr>r_text := txt\<rparr>]\<rparr>"

text \<open>
  \<^verbatim>\<open>doc.add_table(rows, cols)\<close>: a grid of cells, each holding one empty paragraph, the
  width between the margins divided evenly over the columns.
\<close>

definition block_width :: "document \<Rightarrow> int" where
  "block_width doc = page_width doc - left_margin doc - right_margin doc"

definition new_tc :: "int \<Rightarrow> tc" where
  "new_tc width = \<lparr>tc_paragraphs = [empty_paragraph], grid_span = 1, tc_width = Some width\<rparr>"

definition new_table :: "document \<Rightarrow> nat \<Rightarrow> nat \<Rightarrow> docx_table" where
  "new_table doc rows cols =
     (let col_width = (if cols > 0 then block_width doc div int cols else 0)
      in \<lparr>t_style = None, t_rows = replicate rows (replicate cols (new_tc col_width))\<rparr>)"

text \<open>
  \<^verbatim>\<open>row.cells\<close>: one entry per grid column; a merged cell is listed once for every
  column it spans.  A cell is named by the position of its element in the row.
\<close>

fun cells_from :: "nat \<Rightarrow> tc list \<Rightarrow> nat list" where
  "cells_from i [] = []"
| "cells_from i (t # ts) = replicate (grid_span t) i @ cells_from (Suc i) ts"

definition row_cells :: "tc list \<Rightarrow> nat list" where
  "row_cells row = cells_from 0 row"

text \<open>\<^verbatim>\<open>cell.text = value\<close> replaces the content by one paragraph holding one run.\<close>

definition set_text :: "tc \<Rightarrow> string \<Rightarrow> tc" where
  "set_text cell txt =
     cell\<lparr>tc_paragraphs := [empty_paragraph\<lparr>p_runs := [empty_run\<lparr>r_text := txt\<rparr>]\<rparr>]\<rparr>"

text \<open>
  \<^verbatim>\<open>prev_cell.merge(cell)\<close> for two cells of one row (the program starts from an unmerged
  grid and merges only within a row, so every cell is one row high).  The merged cell
  starts at the leftmost grid column of the two and swallows the elements to its right
  until it spans up to the rightmost one; the content of a swallowed cell is moved over
  unless that cell is empty, and its width is added.
\<close>

definition is_empty_tc :: "tc \<Rightarrow> bool" where
  "is_empty_tc t = (case tc_paragraphs t of [p] \<Rightarrow> p_runs p = [] | _ \<Rightarrow> False)"

definition remove_trailing_empty_p :: "docx_paragraph list \<Rightarrow> docx_paragraph list" where
  "remove_trailing_empty_p ps =
     (if ps \<noteq> [] \<and> p_runs (last ps) = [] then butlast ps else ps)"

definition move_content_to :: "tc \<Rightarrow> tc \<Rightarrow> tc" where
  "move_content_to other top_tc =
     (if is_empty_tc other then top_tc
      else top_tc\<lparr>tc_paragraphs :=
             remove_trailing_empty_p (tc_paragraphs top_tc) @ tc_paragraphs other\<rparr>)"

definition add_width_of :: "tc \<Rightarrow> tc \<Rightarrow> tc" where
  "add_width_of self other =
     (case (tc_width self, tc_width other) of
        (Some a, Some b) \<Rightarrow> if a \<noteq> 0 \<and> b \<noteq> 0 then self\<lparr>tc_width := Some (a + b)\<rparr> else self
      | _ \<Rightarrow> self)"

definition swallow_next_tc :: "tc \<Rightarrow> tc \<Rightarrow> tc" where
  "swallow_next_tc self next_tc =
     (add_width_of (move_content_to next_tc self) next_tc)
       \<lparr>grid_span := grid_span self + grid_span next_tc\<rparr>"

fun span_to_width :: "nat \<Rightarrow> tc \<Rightarrow> tc list \<Rightarrow> py_error + tc \<times> tc list" where
  "span_to_width grid_width self [] =
     (if grid_span self < grid_width then Inl InvalidSpanError else Inr (self, []))"
| "span_to_width grid_width self (next_tc # rest) =
     (if grid_span self < grid_width then
        (if grid_span self + grid_span next_tc > grid_width then Inl InvalidSpanError
         else span_to_width grid_width (swallow_next_tc self next_tc) rest)
      else Inr (self, next_tc # rest))"

definition grid_left :: "tc list \<Rightarrow> nat \<Rightarrow> nat" where
  "grid_left row i = sum_list (map grid_span (take i row))"

definition merge :: "tc list \<Rightarrow> nat \<Rightarrow> nat \<Rightarrow> py_error + tc list" where
  "merge row self other =
     (let left = min (grid_left row self) (grid_left row other);
          right = max (grid_left row self + grid_span (row ! self))
                      (grid_left row other + grid_span (row ! other));
          k = min self other
      in case span_to_width (right - left) (row ! k) (drop (Suc k) row) of
           Inl e \<Rightarrow> Inl e
         | Inr (t, rest) \<Rightarrow> Inr (take k row @ t # rest))"

section \<open>Paragraph composition\<close>

text \<open>
  \<^verbatim>\<open>add_line_paragraph\<close> appends a paragraph and then fills it in through the reference
  it holds; nothing else is appended meanwhile, so the paragraph is built first and
  appended when it is complete.
\<close>

definition styled_run :: "int \<Rightarrow> string \<Rightarrow> docx_paragraph \<Rightarrow> word \<Rightarrow> docx_paragraph" where
  "styled_run font_size font_name p wd =
     (let p1 = add_run p (w_text wd @ '' '');
          rn = last (p_runs p1);
          rn = rn\<lparr>r_bold := Some (is_bold wd)\<rparr>;
          rn = rn\<lparr>r_size := Some (Pt font_size)\<rparr>;
          rn = rn\<lparr>r_font_name := Some font_name\<rparr>
      in p1\<lparr>p_runs := butlast (p_runs p1) @ [rn]\<rparr>)"

definition line_paragraph :: "line \<Rightarrow> word list \<Rightarrow> real \<Rightarrow> int \<Rightarrow> string \<Rightarrow> docx_paragraph" where
  "line_paragraph lin line_words page_center font_size font_name =
     (let p = empty_paragraph;
          p = (if is_centered lin page_center then p\<lparr>p_alignment := Some CENTER\<rparr>
               else p\<lparr>p_alignment := Some LEFT\<rparr>)
      in foldl (styled_run font_size font_name) p line_words)"

definition add_line_paragraph ::
  "document \<Rightarrow> line \<Rightarrow> word list \<Rightarrow> real \<Rightarrow> int \<Rightarrow> string \<Rightarrow> document" where
  "add_line_paragraph doc lin line_words page_center font_size font_name =
     doc\<lparr>body := body doc @
       [Paragraph (line_paragraph lin line_words page_center font_size font_name)]\<rparr>"

section \<open>Table composition\<close>

text \<open>
  \<^verbatim>\<open>s.strip()\<close> removes leading and trailing whitespace; on byte strings these are
  the ASCII whitespace characters (codes 9 to 13, 28 to 32).
\<close>

definition is_space :: "char \<Rightarrow> bool" where
  "is_space ch = (let n = of_char ch :: nat in (9 \<le> n \<and> n \<le> 13) \<or> (28 \<le> n \<and> n \<le> 32))"

definition strip :: "string \<Rightarrow> string" where
  "strip s = rev (dropWhile is_space (rev (dropWhile is_space s)))"

text \<open>Truthiness of a grid cell: \<^verbatim>\<open>None\<close> and the empty string are falsy.\<close>

definition truthy :: "string option \<Rightarrow> bool" where
  "truthy v = (case v of None \<Rightarrow> False | Some s \<Rightarrow> s \<noteq> [])"

text \<open>
  Styling one paragraph of a cell from word \<open>w\<close> (source lines 94 to 96): the first run,
  or a new run when the paragraph has none, gets the bold flag; the paragraph is centred.
\<close>

definition style_paragraph :: "word \<Rightarrow> docx_paragraph \<Rightarrow> docx_paragraph" where
  "style_paragraph w p =
     (let p1 = (if p_runs p \<noteq> [] then p else add_run p []);
          rn = (if p_runs p \<noteq> [] then hd (p_runs p1) else last (p_runs p1));
          rn' = rn\<lparr>r_bold := Some (is_bold w)\<rparr>;
          p2 = (if p_runs p \<noteq> [] then p1\<lparr>p_runs := rn' # tl (p_runs p1)\<rparr>
                else p1\<lparr>p_runs := butlast (p_runs p1) @ [rn']\<rparr>)
      in p2\<lparr>p_alignment := Some CENTER\<rparr>)"

text \<open>
  The loop over \<^verbatim>\<open>table_words\<close> (source lines 91 to 97): the first word whose stripped
  text equals the stripped cell value styles the cell, and the loop breaks.
\<close>

fun apply_word_style :: "word list \<Rightarrow> string \<Rightarrow> tc \<Rightarrow> tc" where
  "apply_word_style [] val cell = cell"
| "apply_word_style (w # ws) val cell =
     (if strip (w_text w) = strip val
      then cell\<lparr>tc_paragraphs := map (style_paragraph w) (tc_paragraphs cell)\<rparr>
      else apply_word_style ws val cell)"

text \<open>
  The body of the loop over the columns (source lines 75 to 98), on the row \<open>r\<close> of the
  output table.  The state is that row and \<^verbatim>\<open>merge_count\<close>.
\<close>

definition cell_step ::
  "grid \<Rightarrow> word list \<Rightarrow> int list \<Rightarrow> nat \<Rightarrow> nat \<Rightarrow> tc list \<times> nat \<Rightarrow> py_error + tc list \<times> nat" where
  "cell_step table table_words col_widths r c st =
     (case st of (row, merge_count) \<Rightarrow>
       (case subscr Grid_cell table (int r) of Inl e \<Rightarrow> Inl e | Inr grid_row \<Rightarrow>
         (case subscr Grid_cell grid_row (int c) of Inl e \<Rightarrow> Inl e | Inr raw \<Rightarrow>
           (let val = (if truthy raw then raw else None) in
             (case subscr Row_cells (row_cells row) (int c) of Inl e \<Rightarrow> Inl e | Inr cell \<Rightarrow>
               (case subscr Col_widths col_widths (int c) of Inl e \<Rightarrow> Inl e | Inr cw \<Rightarrow>
                 (let row1 = row[cell := (row ! cell)\<lparr>tc_width := Some (Cm cw)\<rparr>] in
                   (case val of
                      None \<Rightarrow>
                        (if c > 0 then
                           (case subscr Row_cells (row_cells row1)
                                   (int c - 1 - int merge_count) of
                              Inl e \<Rightarrow> Inl e
                            | Inr prev_cell \<Rightarrow>
                                (case merge row1 prev_cell cell of
                                   Inl e \<Rightarrow> Inl e
                                 | Inr row2 \<Rightarrow> Inr (row2, merge_count + 1)))
                         else Inr (row1, merge_count))
                    | Some v \<Rightarrow>
                        Inr (row1[cell := apply_word_style table_words v
                                            (set_text (row1 ! cell) v)], 0)))))))))"

fun cols_loop ::
  "grid \<Rightarrow> word list \<Rightarrow> int list \<Rightarrow> nat \<Rightarrow> nat list \<Rightarrow> tc list \<times> nat \<Rightarrow> py_error + tc list \<times> nat" where
  "cols_loop table table_words col_widths r [] st = Inr st"
| "cols_loop table table_words col_widths r (c # cs) st =
     (case cell_step table table_words col_widths r c st of
        Inl e \<Rightarrow> Inl e
      | Inr st' \<Rightarrow> cols_loop table table_words col_widths r cs st')"

text \<open>
  The loop over the rows (source lines 72 to 98).  \<^verbatim>\<open>merge_count\<close> starts at 0 in every
  row.  The row \<open>r\<close> of the output table is taken out before the inner loop and put back
  after it.
\<close>

fun rows_loop ::
  "grid \<Rightarrow> word list \<Rightarrow> int list \<Rightarrow> nat \<Rightarrow> nat list \<Rightarrow> tc list list \<Rightarrow> py_error + tc list list" where
  "rows_loop table table_words col_widths cols [] trows = Inr trows"
| "rows_loop table table_words col_widths cols (r # rs) trows =
     (case subscr Table_rows trows (int r) of
        Inl e \<Rightarrow> Inl e
      | Inr row \<Rightarrow>
          (case cols_loop table table_words col_widths r [0..<cols] (row, 0) of
             Inl e \<Rightarrow> Inl e
           | Inr (row', merge_count) \<Rightarrow>
               rows_loop table table_words col_widths cols rs (trows[r := row'])))"

text \<open>
  \<^verbatim>\<open>add_table_to_doc\<close>.  The table is appended to the body when it is created and then
  filled in through the reference; it is the last block until the spacing paragraph
  follows, so the filled table is appended here.  When an exception escapes there is no
  document to return.
\<close>

definition add_table_to_doc ::
  "document \<Rightarrow> grid \<Rightarrow> word list \<Rightarrow> int list \<Rightarrow> py_error + document" where
  "add_table_to_doc doc table table_words col_widths =
     (if table = [] then Inr doc
      else
        let rows = length table;
            cols = length (hd table);
            word_table = new_table doc rows cols;
            word_table = word_table\<lparr>t_style := Some ''Table Grid''\<rparr>
        in case rows_loop table table_words col_widths cols [0..<rows] (t_rows word_table) of
             Inl e \<Rightarrow> Inl e
           | Inr trows \<Rightarrow>
               Inr (add_paragraph
                     (doc\<lparr>body := body doc @ [Table (word_table\<lparr>t_rows := trows\<rparr>)]\<rparr>)))"

section \<open>Orchestration\<close>

text \<open>
  What the program gets from outside: the PDF library, which for a path gives the
  extraction of the first page or raises, and the document that \<^verbatim>\<open>Document()\<close> returns.
\<close>

record env =
  open_pdf :: "string \<Rightarrow> py_error + extraction"
  new_document :: document

text \<open>What the program changes outside: files written and lines printed.\<close>

record world =
  files :: "string \<Rightarrow> document option"
  writable :: "string \<Rightarrow> bool"
  stdout :: "string list"

definition extract_words_and_lines :: "env \<Rightarrow> string \<Rightarrow> py_error + extraction" where
  "extract_words_and_lines ev pdf_path = open_pdf ev pdf_path"

definition create_word :: "env \<Rightarrow> document" where
  "create_word ev =
     (let doc = new_document ev;
          vertical = Inches (1/2);
          doc = doc\<lparr>top_margin := vertical\<rparr>;
          doc = doc\<lparr>bottom_margin := vertical\<rparr>;
          horizontal = Inches (1/2);
          doc = doc\<lparr>left_margin := horizontal\<rparr>;
          doc = doc\<lparr>right_margin := horizontal\<rparr>
      in doc)"

definition save :: "document \<Rightarrow> string \<Rightarrow> world \<Rightarrow> py_error + world" where
  "save doc path wld =
     (if writable wld path then Inr (wld\<lparr>files := (files wld)(path \<mapsto> doc)\<rparr>)
      else Inl SaveError)"

definition print :: "string \<Rightarrow> world \<Rightarrow> world" where
  "print s wld = wld\<lparr>stdout := stdout wld @ [s]\<rparr>"

text \<open>The body of the loop over the lines (source lines 112 to 117).\<close>

definition line_step :: "word list \<Rightarrow> bbox list \<Rightarrow> real \<Rightarrow> document \<Rightarrow> line \<Rightarrow> document" where
  "line_step wds table_bboxes page_center doc lin =
     (let inside_table = list_ex (\<lambda>tb_bbox. is_line_inside_table lin tb_bbox 2) table_bboxes
      in if inside_table then doc
         else
           let line_words = get_words_for_line lin wds 3
           in if line_words \<noteq> [] then
                add_line_paragraph doc lin line_words page_center 11 ''Times New Roman''
              else doc)"

text \<open>The words collected for a table (source lines 122 to 126).\<close>

definition collect_table_words :: "word list \<Rightarrow> bbox list \<Rightarrow> word list" where
  "collect_table_words wds table_bboxes =
     concat (map (\<lambda>w. concat (map (\<lambda>tb_bbox.
        if is_line_inside_table \<lparr>v_top = w_top w, v_bottom = w_bottom w\<rparr> tb_bbox 2
        then [w] else []) table_bboxes)) wds)"

text \<open>The loop over the tables (source lines 120 to 127).\<close>

fun tables_loop :: "word list \<Rightarrow> bbox list \<Rightarrow> grid list \<Rightarrow> document \<Rightarrow> py_error + document" where
  "tables_loop wds table_bboxes [] doc = Inr doc"
| "tables_loop wds table_bboxes (table # rest) doc =
     (let table_words = collect_table_words wds table_bboxes
      in case add_table_to_doc doc table table_words [1, 3, 15] of
           Inl e \<Rightarrow> Inl e
         | Inr doc' \<Rightarrow> tables_loop wds table_bboxes rest doc')"

text \<open>The document that \<^verbatim>\<open>main\<close> has built when it reaches the save.\<close>

definition build_document :: "env \<Rightarrow> extraction \<Rightarrow> py_error + document" where
  "build_document ev ex =
     (let doc = create_word ev;
          page_center = ex_page_width ex / 2;
          doc = foldl (line_step (ex_words ex) (ex_table_bboxes ex) page_center) doc (ex_lines ex)
      in tables_loop (ex_words ex) (ex_table_bboxes ex) (ex_tables ex) doc)"

definition main :: "env \<Rightarrow> string \<Rightarrow> string \<Rightarrow> world \<Rightarrow> py_error + world" where
  "main ev pdf_path output_doc wld =
     (case extract_words_and_lines ev pdf_path of
        Inl e \<Rightarrow> Inl e
      | Inr ex \<Rightarrow>
          (case build_document ev ex of
             Inl e \<Rightarrow> Inl e
           | Inr doc \<Rightarrow>
               (case save doc ''word_file3.docx'' wld of
                  Inl e \<Rightarrow> Inl e
                | Inr wld' \<Rightarrow> Inr (print (''Word document saved: '' @ output_doc) wld'))))"

section \<open>Notions used to state the properties\<close>

text \<open>The text a reader sees in a paragraph and in a cell (paragraphs joined by newlines).\<close>

definition paragraph_text :: "docx_paragraph \<Rightarrow> string" where
  "paragraph_text p = concat (map r_text (p_runs p))"

fun join_lines :: "string list \<Rightarrow> string" where
  "join_lines [] = []"
| "join_lines [s] = s"
| "join_lines (s # t # ss) = s @ CHR 0x0A # join_lines (t # ss)"

definition cell_text :: "tc \<Rightarrow> string" where
  "cell_text t = join_lines (map paragraph_text (tc_paragraphs t))"

text \<open>
  The visual cells of an output row: for every cell element its text, its first grid
  column and its last grid column.
\<close>

fun visual_cells_from :: "nat \<Rightarrow> tc list \<Rightarrow> (string \<times> nat \<times> nat) list" where
  "visual_cells_from col [] = []"
| "visual_cells_from col (t # ts) =
     (cell_text t, col, col + grid_span t - 1) # visual_cells_from (col + grid_span t) ts"

definition visual_cells :: "tc list \<Rightarrow> (string \<times> nat \<times> nat) list" where
  "visual_cells row = visual_cells_from 0 row"

definition tables_of :: "document \<Rightarrow> docx_table list" where
  "tables_of doc = concat (map (\<lambda>b. case b of Table t \<Rightarrow> [t] | Paragraph p \<Rightarrow> []) (body doc))"

text \<open>
  The merge rule in the words of the specification: an absent (falsy) cell is merged into
  the nearest preceding cell of its row that is not itself merged away.  Read from left to
  right, a row of values falls into groups, each a leading value followed by the absent
  values up to the next present one; a group is one visual cell with the text of its
  leading value (no text when that value is absent, which can only be in column 0) that
  spans as many columns as the group has values.
\<close>

definition cell_value_text :: "string option \<Rightarrow> string" where
  "cell_value_text v = (case v of None \<Rightarrow> [] | Some s \<Rightarrow> s)"

function spec_row_layout :: "string option list \<Rightarrow> (string \<times> nat) list" where
  "spec_row_layout [] = []"
| "spec_row_layout (v # vs) =
     (cell_value_text v, Suc (length (takeWhile (\<lambda>x. \<not> truthy x) vs)))
       # spec_row_layout (dropWhile (\<lambda>x. \<not> truthy x) vs)"
  by pat_completeness auto
termination
  by (relation "measure length") (auto simp: length_dropWhile_le less_Suc_eq_le)


text \<open>
  Geometric overlap of a line with a table bounding box, the box grown vertically by the
  tolerance: the two rectangles share a point.
\<close>

definition overlaps_table :: "line \<Rightarrow> bbox \<Rightarrow> real \<Rightarrow> bool" where
  "overlaps_table lin table_bbox tol =
     (case table_bbox of (x0, t_top, x1, t_bottom) \<Rightarrow>
        v_top lin \<le> t_bottom + tol \<and> t_top - tol \<le> v_bottom lin \<and>
        l_x0 lin \<le> x1 \<and> x0 \<le> l_x1 lin)"

text \<open>The words whose vertical span lies inside one bounding box, each once.\<close>

definition words_inside_bbox :: "word list \<Rightarrow> bbox \<Rightarrow> word list" where
  "words_inside_bbox wds table_bbox =
     filter (\<lambda>w. is_line_inside_table \<lparr>v_top = w_top w, v_bottom = w_bottom w\<rparr> table_bbox 2) wds"

subsection \<open>The state of the loop over the columns\<close>

text \<open>
  While a row is built, the cells left of the current column are done and the cells from
  the current column on are as the library created them.  The invariant of the done part:
  its spans add up to the current column, and the merge counter is smaller than the span
  of the last done cell, so that \<^verbatim>\<open>cells[c - 1 - merge_count]\<close> is that cell.
\<close>

text \<open>
  The done part is read as the list of its cells, each with its text and its span.  One
  step of the loop, seen on that list: a present value appends a cell of span 1, an absent
  value in column 0 appends an empty cell, any other absent value widens the last cell.
\<close>

definition merge_step :: "(string \<times> nat) list \<Rightarrow> string option \<Rightarrow> (string \<times> nat) list" where
  "merge_step acc v =
     (if truthy v then acc @ [(cell_value_text v, 1)]
      else if acc = [] then [([], 1)]
      else butlast acc @ [(fst (last acc), Suc (snd (last acc)))])"

definition row_view :: "tc list \<Rightarrow> (string \<times> nat) list" where
  "row_view row = map (\<lambda>t. (cell_text t, grid_span t)) row"

definition row_inv :: "tc list \<Rightarrow> nat \<Rightarrow> nat \<Rightarrow> bool" where
  "row_inv built c merge_count =
     (sum_list (map grid_span built) = c \<and> list_all (\<lambda>g. 0 < grid_span g) built \<and>
      (if built = [] then merge_count = 0 else merge_count < grid_span (last built)))"

text \<open>A cell as the library created it, and the same cell after its width was set.\<close>

definition fresh_tc :: "tc \<Rightarrow> bool" where
  "fresh_tc f = (tc_paragraphs f = [empty_paragraph] \<and> grid_span f = 1)"

definition widened :: "tc \<Rightarrow> int list \<Rightarrow> nat \<Rightarrow> tc" where
  "widened f col_widths c = f\<lparr>tc_width := Some (Cm (col_widths ! c))\<rparr>"

subsection \<open>Sample data\<close>

definition letter_document :: document where
  "letter_document =
     \<lparr>page_width = 7772400, top_margin = 914400, bottom_margin = 914400,
      left_margin = 1143000, right_margin = 1143000, body = []\<rparr>"

definition sample_word :: "string \<Rightarrow> real \<Rightarrow> real \<Rightarrow> string \<Rightarrow> word" where
  "sample_word txt tp btm font =
     \<lparr>w_text = txt, w_top = tp, w_bottom = btm, w_x0 = 72, w_x1 = 120,
      w_fontname = Some font, w_size = 11\<rparr>"

definition sample_line :: "real \<Rightarrow> real \<Rightarrow> real \<Rightarrow> real \<Rightarrow> line" where
  "sample_line tp btm x0 x1 = \<lparr>v_top = tp, v_bottom = btm, l_x0 = x0, l_x1 = x1\<rparr>"

definition sample_world :: world where
  "sample_world = \<lparr>files = (\<lambda>path. None), writable = (\<lambda>path. True), stdout = []\<rparr>"

definition sample_env :: env where
  "sample_env =
     \<lparr>open_pdf = (\<lambda>path. Inr \<lparr>ex_words = [sample_word ''TITLE'' 100 112 ''Times-Bold''],
                                  ex_lines = [sample_line 100 112 250 350],
                                  ex_page_width = 612,
                                  ex_tables = [[[Some ''H1'', Some ''H2''], [Some ''v1'', None]]],
                                  ex_table_bboxes = [(72, 300, 540, 360)]\<rparr>),
      new_document = letter_document\<rparr>"


section \<open>Properties\<close>

subsection \<open>Runs, bold flags and alignment\<close>








lemma apply_word_style_find:
  "apply_word_style tws v cell =
     (case find (\<lambda>w. strip (w_text w) = strip v) tws of
        None \<Rightarrow> cell
      | Some w \<Rightarrow> cell\<lparr>tc_paragraphs := map (style_paragraph w) (tc_paragraphs cell)\<rparr>)"
  by (induction tws) simp_all

lemma style_paragraph_text_run:
  "style_paragraph w (empty_paragraph\<lparr>p_runs := [empty_run\<lparr>r_text := v\<rparr>]\<rparr>) =
     \<lparr>p_alignment = Some CENTER,
      p_runs = [\<lparr>r_text = v, r_bold = Some (is_bold w), r_size = None, r_font_name = None\<rparr>]\<rparr>"
  by (simp add: style_paragraph_def empty_paragraph_def empty_run_def Let_def)

text \<open>
  Claim C10.  When the grid passed to the table builder has no rows, the builder returns
  the document as it got it: no table and no spacing paragraph are appended.
\<close>
theorem add_table_to_doc_empty_grid: "add_table_to_doc doc [] table_words col_widths = Inr doc"
  by (simp add: add_table_to_doc_def)




lemma inside_any_iff:
  "list_ex (\<lambda>tb. is_line_inside_table lin tb 2) bbs \<longleftrightarrow>
     (\<exists>(x0, t, x1, b) \<in> set bbs. t - 2 \<le> v_top lin \<and> v_bottom lin \<le> b + 2)"
  by (auto simp: list_ex_iff is_line_inside_table_def)

lemma line_step_cases:
  "line_step wds bbs pc doc lin =
     (if list_ex (\<lambda>tb. is_line_inside_table lin tb 2) bbs \<or> get_words_for_line lin wds 3 = []
      then doc
      else doc\<lparr>body := body doc @
        [Paragraph (line_paragraph lin (get_words_for_line lin wds 3) pc 11 ''Times New Roman'')]\<rparr>)"
  by (simp add: line_step_def add_line_paragraph_def Let_def)

lemma body_append_neq: "doc\<lparr>body := body doc @ [b]\<rparr> \<noteq> (doc :: document)"
proof
  assume "doc\<lparr>body := body doc @ [b]\<rparr> = doc"
  then have "body (doc\<lparr>body := body doc @ [b]\<rparr>) = body doc" by simp
  then show False by simp
qed







subsection \<open>Lines inside tables, words of a table\<close>

lemma line_step_inside:
  "list_ex (\<lambda>tb. is_line_inside_table lin tb 2) bbs \<Longrightarrow> line_step wds bbs pc doc lin = doc"
  by (simp add: line_step_cases)

lemma foldl_line_step_filter:
  "foldl (line_step wds bbs pc) doc lns =
   foldl (line_step wds bbs pc) doc
     (filter (\<lambda>l. \<not> list_ex (\<lambda>tb. is_line_inside_table l tb 2) bbs) lns)"
  by (induction lns arbitrary: doc) (simp_all add: line_step_inside)

text \<open>
  Claim C6, as amended.  A line whose vertical extent lies inside some table bounding box
  (\<open>top - 2 \<le> line top\<close> and \<open>line bottom \<le> bottom + 2\<close>) leaves the document unchanged;
  so a line for which a paragraph is appended lies inside no table bounding box, and the
  loop over the lines gives the same document as the loop over the lines that lie inside
  no box.
\<close>
theorem line_inside_table_no_paragraph:
  "((x0, t, x1, b) \<in> set bbs \<and> t - 2 \<le> v_top lin \<and> v_bottom lin \<le> b + 2 \<longrightarrow>
      line_step wds bbs pc doc lin = doc) \<and>
   (line_step wds bbs pc doc lin \<noteq> doc \<longrightarrow>
      (\<forall>(x0, t, x1, b) \<in> set bbs. \<not> (t - 2 \<le> v_top lin \<and> v_bottom lin \<le> b + 2))) \<and>
   foldl (line_step wds bbs pc) doc lns =
     foldl (line_step wds bbs pc) doc
       (filter (\<lambda>l. \<forall>(x0, t, x1, b) \<in> set bbs. \<not> (t - 2 \<le> v_top l \<and> v_bottom l \<le> b + 2)) lns)"
proof (intro conjI impI)
  assume "(x0, t, x1, b) \<in> set bbs \<and> t - 2 \<le> v_top lin \<and> v_bottom lin \<le> b + 2"
  then have "list_ex (\<lambda>tb. is_line_inside_table lin tb 2) bbs"
    unfolding inside_any_iff by blast
  then show "line_step wds bbs pc doc lin = doc" by (rule line_step_inside)
next
  assume "line_step wds bbs pc doc lin \<noteq> doc"
  then have "\<not> list_ex (\<lambda>tb. is_line_inside_table lin tb 2) bbs"
    using line_step_inside by blast
  then show "\<forall>(x0, t, x1, b) \<in> set bbs. \<not> (t - 2 \<le> v_top lin \<and> v_bottom lin \<le> b + 2)"
    unfolding inside_any_iff by blast
next
  have pe: "(\<lambda>l. \<forall>(x0, t, x1, b) \<in> set bbs. \<not> (t - 2 \<le> v_top l \<and> v_bottom l \<le> b + 2)) =
        (\<lambda>l::line. \<not> list_ex (\<lambda>tb. is_line_inside_table l tb 2) bbs)"
    unfolding inside_any_iff by auto
  show "foldl (line_step wds bbs pc) doc lns =
     foldl (line_step wds bbs pc) doc
       (filter (\<lambda>l. \<forall>(x0, t, x1, b) \<in> set bbs. \<not> (t - 2 \<le> v_top l \<and> v_bottom l \<le> b + 2)) lns)"
    unfolding pe by (rule foldl_line_step_filter)
qed

theorem line_inside_table_no_paragraph_witness:
  "((72 :: real, 300 :: real, 540 :: real, 360 :: real) \<in> set [(72, 300, 540, 360)] \<and>
      300 - 2 \<le> v_top (sample_line 299 361 72 200) \<and> v_bottom (sample_line 299 361 72 200) \<le> 360 + 2) \<and>
   line_step [sample_word ''cell'' 299 361 ''Times''] [(72, 300, 540, 360)] 306 letter_document
     (sample_line 299 361 72 200) = letter_document \<and>
   line_step [sample_word ''Note'' 90 110 ''Times''] [(72, 100, 540, 200)] 306
           letter_document (sample_line 90 110 72 200) \<noteq> letter_document \<and>
   \<not> (100 - 2 \<le> v_top (sample_line 90 110 72 200) \<and> v_bottom (sample_line 90 110 72 200) \<le> 200 + 2)"
proof -
  have h1: "(72 :: real, 300 :: real, 540 :: real, 360 :: real) \<in> set [(72, 300, 540, 360)] \<and>
      300 - 2 \<le> v_top (sample_line 299 361 72 200) \<and> v_bottom (sample_line 299 361 72 200) \<le> 360 + 2"
    by (simp add: sample_line_def)
  have h2: "line_step [sample_word ''Note'' 90 110 ''Times''] [(72, 100, 540, 200)] 306
           letter_document (sample_line 90 110 72 200) \<noteq> letter_document"
    by (simp add: sample_line_def line_step_cases is_line_inside_table_def
      get_words_for_line_def sample_word_def body_append_neq)
  have r1: "line_step [sample_word ''cell'' 299 361 ''Times''] [(72, 300, 540, 360)] 306
      letter_document (sample_line 299 361 72 200) = letter_document"
    using h1 line_inside_table_no_paragraph [where bbs = "[(72, 300, 540, 360)]" and lin = "sample_line 299 361 72 200"
      and ?x0.0 = 72 and t = 300 and ?x1.0 = 540 and b = 360
      and wds = "[sample_word ''cell'' 299 361 ''Times'']" and pc = 306 and doc = letter_document]
    by (simp add: sample_line_def)
  have r2: "\<forall>(x0, t, x1, b) \<in> set [(72 :: real, 100 :: real, 540 :: real, 200 :: real)].
      \<not> (t - 2 \<le> v_top (sample_line 90 110 72 200) \<and> v_bottom (sample_line 90 110 72 200) \<le> b + 2)"
    using h2 line_inside_table_no_paragraph [where bbs = "[(72, 100, 540, 200)]" and lin = "sample_line 90 110 72 200"
      and wds = "[sample_word ''Note'' 90 110 ''Times'']" and pc = 306 and doc = letter_document]
    by blast
  from r2 have r3:
    "\<not> (100 - 2 \<le> v_top (sample_line 90 110 72 200) \<and> v_bottom (sample_line 90 110 72 200) \<le> 200 + 2)"
    by simp
  from h1 h2 r1 r3 show ?thesis by blast
qed

text \<open>
  Claim C6 as stated also says that no emitted line overlaps a table bounding box.  A line
  from 90 to 110 overlaps the box from 100 to 200 and is not inside it: a paragraph is
  appended for it.
\<close>
theorem overlapping_line_is_emitted:
  "overlaps_table (sample_line 90 110 72 200) (72, 100, 540, 200) 2 \<and>
   body (line_step [sample_word ''Note'' 90 110 ''Times''] [(72, 100, 540, 200)] 306
           letter_document (sample_line 90 110 72 200)) =
     [Paragraph (line_paragraph (sample_line 90 110 72 200) [sample_word ''Note'' 90 110 ''Times'']
                   306 11 ''Times New Roman'')]"
  by (simp add: overlaps_table_def sample_line_def line_step_cases is_line_inside_table_def
      get_words_for_line_def sample_word_def letter_document_def)

text \<open>
  Claim C5.  The words collected for a table are taken from every table bounding box of
  the page, not from the box of that table: with two tables, the word of the second table
  is among the words of the first, and a word inside two boxes is collected twice.
\<close>
theorem collect_table_words_all_boxes:
  "collect_table_words [sample_word ''A'' 110 120 ''Times'', sample_word ''B'' 310 320 ''Times'']
      [(72, 100, 540, 200), (72, 300, 540, 400)] =
     [sample_word ''A'' 110 120 ''Times'', sample_word ''B'' 310 320 ''Times''] \<and>
   words_inside_bbox [sample_word ''A'' 110 120 ''Times'', sample_word ''B'' 310 320 ''Times'']
      (72, 100, 540, 200) = [sample_word ''A'' 110 120 ''Times''] \<and>
   collect_table_words [sample_word ''A'' 110 120 ''Times''] [(72, 100, 540, 200), (72, 105, 540, 300)] =
     [sample_word ''A'' 110 120 ''Times'', sample_word ''A'' 110 120 ''Times'']"
  by (simp add: collect_table_words_def words_inside_bbox_def is_line_inside_table_def
      sample_word_def)


subsection \<open>The saved file\<close>

lemma main_Inr_iff:
  "main ev pdf_path output_doc wld = Inr wld' \<longleftrightarrow>
     (\<exists>ex doc. open_pdf ev pdf_path = Inr ex \<and> build_document ev ex = Inr doc \<and>
        writable wld ''word_file3.docx'' \<and>
        wld' = wld\<lparr>files := (files wld)(''word_file3.docx'' \<mapsto> doc),
                    stdout := stdout wld @ [''Word document saved: '' @ output_doc]\<rparr>)"
  by (auto simp: main_def extract_words_and_lines_def save_def print_def
      split: sum.splits if_splits)

text \<open>
  Claim C1.  A run of \<^verbatim>\<open>main\<close> that completes has written the built document to
  \<^verbatim>\<open>word_file3.docx\<close> and to no other file, whatever output name was requested; it has
  printed one line, which names the requested output; and with any other requested name
  the files are the same.
\<close>
theorem main_saves_fixed_filename:
  "main ev pdf_path output_doc wld = Inr wld' \<Longrightarrow>
     (\<exists>ex doc. open_pdf ev pdf_path = Inr ex \<and> build_document ev ex = Inr doc \<and>
        files wld' = (files wld)(''word_file3.docx'' \<mapsto> doc)) \<and>
     (output_doc \<noteq> ''word_file3.docx'' \<longrightarrow> files wld' output_doc = files wld output_doc) \<and>
     stdout wld' = stdout wld @ [''Word document saved: '' @ output_doc] \<and>
     (\<forall>other. \<exists>wld''. main ev pdf_path other wld = Inr wld'' \<and> files wld'' = files wld')"
proof -
  assume m: "main ev pdf_path output_doc wld = Inr wld'"
  then obtain ex doc where ex: "open_pdf ev pdf_path = Inr ex"
    and doc: "build_document ev ex = Inr doc"
    and wr: "writable wld ''word_file3.docx''"
    and w': "wld' = wld\<lparr>files := (files wld)(''word_file3.docx'' \<mapsto> doc),
                    stdout := stdout wld @ [''Word document saved: '' @ output_doc]\<rparr>"
    unfolding main_Inr_iff by blast
  have "\<exists>wld''. main ev pdf_path other wld = Inr wld'' \<and> files wld'' = files wld'" for other
    unfolding main_Inr_iff using ex doc wr w' by simp
  with ex doc w' show ?thesis by simp
qed

theorem main_saves_fixed_filename_witness:
  "\<exists>wld'. main sample_env ''django_assignment.pdf'' ''word_doc.docx'' sample_world = Inr wld' \<and>
     files wld' ''word_doc.docx'' = None \<and>
     files wld' ''word_file3.docx'' \<noteq> None \<and>
     stdout wld' = [''Word document saved: word_doc.docx'']"
proof -
  have "\<not> isl (build_document sample_env (projr (open_pdf sample_env ''django_assignment.pdf'')))"
    by code_simp
  then have "\<exists>doc. build_document sample_env (projr (open_pdf sample_env ''django_assignment.pdf'')) = Inr doc"
    by (cases "build_document sample_env (projr (open_pdf sample_env ''django_assignment.pdf''))") simp_all
  then obtain wld' where
    m: "main sample_env ''django_assignment.pdf'' ''word_doc.docx'' sample_world = Inr wld'"
    unfolding main_Inr_iff by (auto simp: sample_env_def sample_world_def)
  from main_saves_fixed_filename [OF m] have
    "files wld' ''word_doc.docx'' = None \<and> files wld' ''word_file3.docx'' \<noteq> None \<and>
     stdout wld' = [''Word document saved: word_doc.docx'']"
    by (auto simp: sample_world_def)
  with m show ?thesis by blast
qed

subsection \<open>The table builder\<close>


lemma subscr_nat:
  "subscr site xs (int c) = (if c < length xs then Inr (xs ! c) else Inl (IndexError site))"
  by (simp add: subscr_def)

lemma length_cells_from: "length (cells_from i row) = sum_list (map grid_span row)"
  by (induction row arbitrary: i) simp_all

lemma cells_from_append:
  "cells_from i (xs @ ys) = cells_from i xs @ cells_from (i + length xs) ys"
  by (induction xs arbitrary: i) simp_all

lemma row_cells_nth_next:
  assumes "sum_list (map grid_span G) = c" "0 < grid_span f"
  shows "c < length (row_cells (G @ f # F))" and "row_cells (G @ f # F) ! c = length G"
  using assms
  by (simp_all add: row_cells_def cells_from_append length_cells_from nth_append)

lemma row_cells_nth_last:
  assumes "sum_list (map grid_span (G0 @ [g])) = c" "mc < grid_span g"
  shows "c - 1 - mc < length (row_cells (G0 @ g # F))"
    and "row_cells (G0 @ g # F) ! (c - 1 - mc) = length G0"
proof -
  let ?s = "sum_list (map grid_span G0)"
  from assms have c: "c = ?s + grid_span g" by simp
  with assms have lo: "?s \<le> c - 1 - mc" and hi: "c - 1 - mc - ?s < grid_span g" by simp_all
  show "c - 1 - mc < length (row_cells (G0 @ g # F))"
    using c assms by (simp add: row_cells_def cells_from_append length_cells_from)
  show "row_cells (G0 @ g # F) ! (c - 1 - mc) = length G0"
    using lo hi
    by (simp add: row_cells_def cells_from_append length_cells_from nth_append)
qed

lemma span_to_width_done:
  "\<not> grid_span t < gw \<Longrightarrow> span_to_width gw t rest = Inr (t, rest)"
  by (cases rest) simp_all

lemma grid_span_swallow [simp]:
  "grid_span (swallow_next_tc g f) = grid_span g + grid_span f"
  by (simp add: swallow_next_tc_def)

lemma merge_last:
  assumes "grid_span f = 1"
  shows "merge (G0 @ g # f # F) (length G0) (Suc (length G0)) = Inr (G0 @ swallow_next_tc g f # F)"
proof -
  let ?row = "G0 @ g # f # F"
  have l1: "grid_left ?row (length G0) = sum_list (map grid_span G0)"
    by (simp add: grid_left_def)
  have l2: "grid_left ?row (Suc (length G0)) = sum_list (map grid_span G0) + grid_span g"
    by (simp add: grid_left_def)
  have n1: "?row ! length G0 = g" by simp
  have n2: "?row ! Suc (length G0) = f" by (simp add: nth_append)
  have d: "drop (Suc (length G0)) ?row = f # F" by simp
  have s: "span_to_width (Suc (grid_span g)) g (f # F) = Inr (swallow_next_tc g f, F)"
    using assms by (simp add: span_to_width_done)
  show ?thesis
    unfolding merge_def Let_def l1 l2 n1 n2
    using assms s by (simp add: d)
qed


lemma cell_step_inv:
  assumes tr: "subscr Grid_cell table (int r) = Inr grow"
    and cg: "c < length grow" and cw: "c < length cws"
    and inv: "row_inv G c mc" and fr: "grid_span f = 1"
  shows "cell_step table tw cws r c (G @ f # F, mc) =
     Inr (if truthy (grow ! c)
          then (G @ apply_word_style tw (cell_value_text (grow ! c))
                      (set_text (widened f cws c) (cell_value_text (grow ! c))) # F, 0)
          else if c = 0 then (widened f cws c # F, mc)
          else (butlast G @ swallow_next_tc (last G) (widened f cws c) # F, Suc mc))"
proof -
  from inv have sum: "sum_list (map grid_span G) = c" by (simp add: row_inv_def)
  from fr have pos: "0 < grid_span f" by simp
  note nx = row_cells_nth_next [OF sum pos, of F]
  have cell: "subscr Row_cells (row_cells (G @ f # F)) (int c) = Inr (length G)"
    using nx by (simp add: subscr_nat)
  have width: "subscr Col_widths cws (int c) = Inr (cws ! c)"
    using cw by (simp add: subscr_nat)
  have raw: "subscr Grid_cell grow (int c) = Inr (grow ! c)"
    using cg by (simp add: subscr_nat)
  have row1: "(G @ f # F)[length G := ((G @ f # F) ! length G)\<lparr>tc_width := Some (Cm (cws ! c))\<rparr>]
      = G @ widened f cws c # F"
    by (simp add: widened_def)
  show ?thesis
  proof (cases "truthy (grow ! c)")
    case True
    then obtain v where v: "grow ! c = Some v" by (auto simp: truthy_def split: option.splits)
    show ?thesis
      unfolding cell_step_def
      using True v
      by (simp add: tr raw cell width row1 Let_def cell_value_text_def) (simp add: widened_def)
  next
    case False
    show ?thesis
    proof (cases "c = 0")
      case True
      with sum inv have nil: "G = []" by (cases G) (auto simp: row_inv_def)
      show ?thesis
        unfolding cell_step_def
        using tr raw cell width True False nil
        by (simp add: Let_def widened_def)
    next
      case cpos: False
      with sum have ne: "G \<noteq> []" by auto
      then obtain G0 g where G: "G = G0 @ [g]" by (metis append_butlast_last_id)
      from inv G have mc: "mc < grid_span g" by (simp add: row_inv_def)
      from sum G have sum': "sum_list (map grid_span (G0 @ [g])) = c" by simp
      have fw: "grid_span (widened f cws c) = 1" using fr by (simp add: widened_def)
      note lst = row_cells_nth_last [OF sum' mc, of "widened f cws c # F"]
      have mcc: "mc < c" using mc sum' by simp
      then have idx: "int c - 1 - int mc = int (c - 1 - mc)" by simp
      have prev: "subscr Row_cells (row_cells (G @ widened f cws c # F)) (int c - 1 - int mc)
          = Inr (length G0)"
        unfolding idx using lst by (simp add: subscr_nat G)
      have mg: "merge (G @ widened f cws c # F) (length G0) (length G)
          = Inr (G0 @ swallow_next_tc g (widened f cws c) # F)"
        using merge_last [OF fw, of G0 g F] by (simp add: G)
      have prev': "subscr Row_cells
            (row_cells (G0 @ g # f\<lparr>tc_width := Some (Cm (cws ! c))\<rparr> # F))
            (int c - 1 - int mc) = Inr (length G0)"
        using prev by (simp add: G widened_def)
      have mg': "merge (G0 @ g # f\<lparr>tc_width := Some (Cm (cws ! c))\<rparr> # F)
            (length G0) (Suc (length G0))
          = Inr (G0 @ swallow_next_tc g (f\<lparr>tc_width := Some (Cm (cws ! c))\<rparr>) # F)"
        using mg by (simp add: G widened_def)
      show ?thesis
        unfolding cell_step_def
        using False cpos
        by (simp add: tr raw cell width Let_def) (simp add: G prev' mg' widened_def)
    qed
  qed
qed


lemma grid_span_apply_word_style [simp]:
  "grid_span (apply_word_style tw v t) = grid_span t"
  by (simp add: apply_word_style_find split: option.splits)

lemma grid_span_set_text [simp]: "grid_span (set_text t v) = grid_span t"
  by (simp add: set_text_def)

lemma grid_span_widened [simp]: "grid_span (widened f cws c) = grid_span f"
  by (simp add: widened_def)

lemma cell_text_styled: "cell_text (apply_word_style tw v (set_text t v)) = v"
proof (cases "find (\<lambda>w. strip (w_text w) = strip v) tw")
  case None
  then show ?thesis
    by (simp add: apply_word_style_find set_text_def cell_text_def paragraph_text_def
        empty_paragraph_def empty_run_def)
next
  case (Some w)
  then have "tc_paragraphs (apply_word_style tw v (set_text t v)) =
      [style_paragraph w (empty_paragraph\<lparr>p_runs := [empty_run\<lparr>r_text := v\<rparr>]\<rparr>)]"
    by (simp add: apply_word_style_find set_text_def)
  then show ?thesis
    unfolding style_paragraph_text_run by (simp add: cell_text_def paragraph_text_def)
qed

lemma cell_text_fresh: "fresh_tc f \<Longrightarrow> cell_text (widened f cws c) = []"
  by (simp add: fresh_tc_def widened_def cell_text_def paragraph_text_def empty_paragraph_def)

lemma cell_text_swallow_fresh:
  "fresh_tc f \<Longrightarrow> cell_text (swallow_next_tc g (widened f cws c)) = cell_text g"
  by (simp add: fresh_tc_def widened_def swallow_next_tc_def move_content_to_def is_empty_tc_def
      add_width_of_def cell_text_def empty_paragraph_def split: option.splits)

lemma row_view_append [simp]: "row_view (xs @ ys) = row_view xs @ row_view ys"
  by (simp add: row_view_def)

lemma row_view_butlast: "row_view (butlast xs) = butlast (row_view xs)"
  by (simp add: row_view_def map_butlast)

lemma cell_step_fresh:
  assumes tr: "subscr Grid_cell table (int r) = Inr grow"
    and cg: "c < length grow" and cw: "c < length cws"
    and inv: "row_inv G c mc" and fr: "fresh_tc f"
  shows "\<exists>G' mc'. cell_step table tw cws r c (G @ f # F, mc) = Inr (G' @ F, mc') \<and>
           row_inv G' (Suc c) mc' \<and> row_view G' = merge_step (row_view G) (grow ! c)"
proof -
  from fr have sp: "grid_span f = 1" by (simp add: fresh_tc_def)
  note st = cell_step_inv [OF tr cg cw inv sp, of tw F]
  from inv have sum: "sum_list (map grid_span G) = c"
    and pos: "list_all (\<lambda>g. 0 < grid_span g) G" by (simp_all add: row_inv_def)
  show ?thesis
  proof (cases "truthy (grow ! c)")
    case True
    let ?t = "apply_word_style tw (cell_value_text (grow ! c))
                      (set_text (widened f cws c) (cell_value_text (grow ! c)))"
    from True st have "cell_step table tw cws r c (G @ f # F, mc) = Inr ((G @ [?t]) @ F, 0)"
      by simp
    moreover have "row_inv (G @ [?t]) (Suc c) 0"
      using sum pos sp by (simp add: row_inv_def)
    moreover have "row_view (G @ [?t]) = merge_step (row_view G) (grow ! c)"
      using True by (simp add: merge_step_def row_view_def cell_text_styled sp)
    ultimately show ?thesis by blast
  next
    case False
    show ?thesis
    proof (cases "c = 0")
      case True
      with sum pos have nil: "G = []" by (cases G) auto
      with inv have mc0: "mc = 0" by (simp add: row_inv_def)
      from True False st
      have "cell_step table tw cws r c (G @ f # F, mc) = Inr ([widened f cws c] @ F, mc)"
        by simp
      moreover have "row_inv [widened f cws c] (Suc c) mc"
        using True mc0 sp by (simp add: row_inv_def)
      moreover have "row_view [widened f cws c] = merge_step (row_view G) (grow ! c)"
        using False nil sp by (simp add: merge_step_def row_view_def cell_text_fresh [OF fr])
      ultimately show ?thesis by blast
    next
      case cpos: False
      with sum have ne: "G \<noteq> []" by auto
      let ?t = "swallow_next_tc (last G) (widened f cws c)"
      from inv ne have mc: "mc < grid_span (last G)" by (simp add: row_inv_def)
      from ne have G: "G = butlast G @ [last G]" by simp
      from False cpos st
      have "cell_step table tw cws r c (G @ f # F, mc) = Inr ((butlast G @ [?t]) @ F, Suc mc)"
        by simp
      moreover have "row_inv (butlast G @ [?t]) (Suc c) (Suc mc)"
      proof -
        have "sum_list (map grid_span G) =
            sum_list (map grid_span (butlast G)) + grid_span (last G)"
          by (subst G) simp
        moreover have "list_all (\<lambda>g. 0 < grid_span g) (butlast G)"
          using pos by (metis G list_all_append)
        ultimately show ?thesis
          using sum mc sp by (simp add: row_inv_def)
      qed
      moreover have "row_view (butlast G @ [?t]) = merge_step (row_view G) (grow ! c)"
      proof -
        have "row_view G \<noteq> []" using ne by (simp add: row_view_def)
        moreover have "last (row_view G) = (cell_text (last G), grid_span (last G))"
          using ne by (simp add: row_view_def last_map)
        ultimately show ?thesis
          using False sp
          by (simp add: merge_step_def row_view_def map_butlast last_map
              cell_text_swallow_fresh [OF fr])
      qed
      ultimately show ?thesis by blast
    qed
  qed
qed

lemma cols_loop_fresh:
  assumes tr: "subscr Grid_cell table (int r) = Inr grow" and fr: "fresh_tc f"
  shows "c + n \<le> length grow \<Longrightarrow> c + n \<le> length cws \<Longrightarrow> row_inv G c mc \<Longrightarrow>
    \<exists>G' mc'. cols_loop table tw cws r [c..<c + n] (G @ replicate n f @ R, mc) = Inr (G' @ R, mc') \<and>
       row_inv G' (c + n) mc' \<and>
       row_view G' = foldl merge_step (row_view G) (take n (drop c grow))"
proof (induction n arbitrary: c G mc)
  case 0
  then show ?case by simp
next
  case (Suc n)
  from Suc.prems have cg: "c < length grow" and cw: "c < length cws" by simp_all
  from cell_step_fresh [OF tr cg cw Suc.prems(3) fr, of tw "replicate n f @ R"]
  obtain G1 mc1 where
    st: "cell_step table tw cws r c (G @ f # replicate n f @ R, mc) = Inr (G1 @ replicate n f @ R, mc1)"
    and inv1: "row_inv G1 (Suc c) mc1"
    and view1: "row_view G1 = merge_step (row_view G) (grow ! c)"
    by blast
  from Suc.prems have b1: "Suc c + n \<le> length grow" and b2: "Suc c + n \<le> length cws" by simp_all
  from Suc.IH [OF b1 b2 inv1]
  obtain G' mc' where
    lp: "cols_loop table tw cws r [Suc c..<Suc c + n] (G1 @ replicate n f @ R, mc1) = Inr (G' @ R, mc')"
    and inv': "row_inv G' (Suc c + n) mc'"
    and view': "row_view G' = foldl merge_step (row_view G1) (take n (drop (Suc c) grow))"
    by blast
  have upt: "[c..<c + Suc n] = c # [Suc c..<Suc c + n]"
    by (simp add: upt_conv_Cons)
  have tk: "take (Suc n) (drop c grow) = grow ! c # take n (drop (Suc c) grow)"
    using cg by (simp add: Cons_nth_drop_Suc [symmetric])
  have "cols_loop table tw cws r [c..<c + Suc n] (G @ replicate (Suc n) f @ R, mc) = Inr (G' @ R, mc')"
    unfolding upt using st lp by simp
  moreover have "row_inv G' (c + Suc n) mc'" using inv' by simp
  moreover have "row_view G' = foldl merge_step (row_view G) (take (Suc n) (drop c grow))"
    unfolding tk using view' view1 by simp
  ultimately show ?case by blast
qed


lemma falsy_text: "\<not> truthy v \<Longrightarrow> cell_value_text v = []"
  by (auto simp: truthy_def cell_value_text_def split: option.splits)

lemma spec_row_layout_ne: "vs \<noteq> [] \<Longrightarrow> spec_row_layout vs \<noteq> []"
  by (cases vs) simp_all

lemma merge_step_Cons:
  "acc \<noteq> [] \<Longrightarrow> merge_step (h # acc) v = h # merge_step acc v"
  by (simp add: merge_step_def)

lemma spec_row_layout_snoc:
  "spec_row_layout (vs @ [v]) = merge_step (spec_row_layout vs) v"
proof (induction vs rule: spec_row_layout.induct)
  case 1
  show ?case by (simp add: merge_step_def falsy_text)
next
  case (2 x xs)
  let ?F = "\<lambda>x. \<not> truthy x"
  show ?case
  proof (cases "\<forall>y \<in> set xs. ?F y")
    case True
    then have tw: "takeWhile ?F xs = xs" and dw: "dropWhile ?F xs = []" by simp_all
    from True have tw': "takeWhile ?F (xs @ [v]) = xs @ takeWhile ?F [v]"
      and dw': "dropWhile ?F (xs @ [v]) = dropWhile ?F [v]"
      by (simp_all add: takeWhile_append2 dropWhile_append2)
    show ?thesis
    proof (cases "truthy v")
      case True
      then show ?thesis
        unfolding append_Cons spec_row_layout.simps tw dw tw' dw'
        by (simp add: merge_step_def)
    next
      case False
      then show ?thesis
        unfolding append_Cons spec_row_layout.simps tw dw tw' dw'
        by (simp add: merge_step_def)
    qed
  next
    case False
    then obtain y where y: "y \<in> set xs" "\<not> ?F y" by blast
    then have tw': "takeWhile ?F (xs @ [v]) = takeWhile ?F xs"
      and dw': "dropWhile ?F (xs @ [v]) = dropWhile ?F xs @ [v]"
      by (simp_all add: takeWhile_append1 dropWhile_append1)
    from y have ne: "dropWhile ?F xs \<noteq> []" by (auto simp: dropWhile_eq_Nil_conv)
    then have ne': "spec_row_layout (dropWhile ?F xs) \<noteq> []" by (rule spec_row_layout_ne)
    show ?thesis
      using "2.IH" ne' by (simp add: tw' dw' merge_step_Cons)
  qed
qed

lemma foldl_merge_step: "foldl merge_step [] vs = spec_row_layout vs"
  by (induction vs rule: rev_induct) (simp_all add: spec_row_layout_snoc)

lemma fresh_new_tc: "fresh_tc (new_tc w)"
  by (simp add: fresh_tc_def new_tc_def)

lemma row_inv_start: "row_inv [] 0 0"
  by (simp add: row_inv_def)

lemma cols_loop_row:
  assumes tr: "subscr Grid_cell table (int r) = Inr grow"
    and "cols \<le> length grow" "cols \<le> length cws"
  shows "\<exists>row' mc'. cols_loop table tw cws r [0..<cols] (replicate cols (new_tc w), 0) = Inr (row', mc') \<and>
           row_view row' = spec_row_layout (take cols grow)"
  using cols_loop_fresh [OF tr fresh_new_tc, where c = 0 and n = cols and cws = cws
      and G = "[]" and mc = 0 and tw = tw and R = "[]" and ?w1 = w] assms(2,3)
  by (auto simp: row_inv_start foldl_merge_step row_view_def)


lemma rows_loop_fresh:
  assumes cw: "cols \<le> length cws"
  shows "k + m \<le> length table \<Longrightarrow> length D = k \<Longrightarrow>
    (\<forall>i. k \<le> i \<and> i < k + m \<longrightarrow> cols \<le> length (table ! i)) \<Longrightarrow>
    \<exists>D'. rows_loop table tw cws cols [k..<k + m] (D @ replicate m (replicate cols (new_tc w)))
            = Inr (D @ D') \<and>
         map row_view D' = map (\<lambda>i. spec_row_layout (take cols (table ! i))) [k..<k + m]"
proof (induction m arbitrary: k D)
  case 0
  then show ?case by simp
next
  case (Suc m)
  let ?fr = "replicate cols (new_tc w)"
  from Suc.prems have kt: "k < length table" and ck: "cols \<le> length (table ! k)" by simp_all
  have tr: "subscr Grid_cell table (int k) = Inr (table ! k)"
    using kt by (simp add: subscr_nat)
  from cols_loop_row [OF tr ck cw, of tw w]
  obtain row' mc' where
    cl: "cols_loop table tw cws k [0..<cols] (?fr, 0) = Inr (row', mc')"
    and view: "row_view row' = spec_row_layout (take cols (table ! k))"
    by blast
  have get: "subscr Table_rows (D @ replicate (Suc m) ?fr) (int k) = Inr ?fr"
    using Suc.prems(2) by (simp add: subscr_nat nth_append)
  have upd: "(D @ replicate (Suc m) ?fr)[k := row'] = (D @ [row']) @ replicate m ?fr"
    using Suc.prems(2) by (auto simp: list_update_append)
  have b: "Suc k + m \<le> length table" using Suc.prems(1) by simp
  have l: "length (D @ [row']) = Suc k" using Suc.prems(2) by simp
  have r: "\<forall>i. Suc k \<le> i \<and> i < Suc k + m \<longrightarrow> cols \<le> length (table ! i)"
    using Suc.prems(3) by simp
  from Suc.IH [OF b l r]
  obtain D1 where
    rl: "rows_loop table tw cws cols [Suc k..<Suc k + m] ((D @ [row']) @ replicate m ?fr)
           = Inr ((D @ [row']) @ D1)"
    and v1: "map row_view D1 =
        map (\<lambda>i. spec_row_layout (take cols (table ! i))) [Suc k..<Suc k + m]"
    by blast
  have upt: "[k..<k + Suc m] = k # [Suc k..<Suc k + m]"
    by (simp add: upt_conv_Cons)
  have "rows_loop table tw cws cols [k..<k + Suc m] (D @ replicate (Suc m) ?fr)
      = Inr (D @ (row' # D1))"
    unfolding upt using rl
    by (simp only: rows_loop.simps get cl sum.case prod.case upd append_assoc append_Cons
        append_Nil)
  moreover have "map row_view (row' # D1) =
      map (\<lambda>i. spec_row_layout (take cols (table ! i))) [k..<k + Suc m]"
    unfolding upt using view v1 by simp
  ultimately show ?case by blast
qed

lemma add_table_to_doc_layout:
  assumes ne: "table \<noteq> []"
    and rect: "\<forall>row \<in> set table. length (hd table) \<le> length row"
    and cw: "length (hd table) \<le> length cws"
  shows "\<exists>t. add_table_to_doc doc table tw cws
            = Inr (doc\<lparr>body := body doc @ [Table t, Paragraph empty_paragraph]\<rparr>) \<and>
          t_style t = Some ''Table Grid'' \<and>
          map row_view (t_rows t) =
            map (\<lambda>row. spec_row_layout (take (length (hd table)) row)) table"
proof -
  let ?cols = "length (hd table)"
  let ?w = "if ?cols > 0 then block_width doc div int ?cols else 0"
  have r: "\<forall>i. 0 \<le> i \<and> i < 0 + length table \<longrightarrow> ?cols \<le> length (table ! i)"
    using rect by simp
  from rows_loop_fresh [OF cw, where k = 0 and m = "length table" and table = table
      and D = "[]" and tw = tw and w = ?w] r
  obtain D' where
    rl: "rows_loop table tw cws ?cols [0..<length table]
           (replicate (length table) (replicate ?cols (new_tc ?w))) = Inr D'"
    and v: "map row_view D' =
        map (\<lambda>i. spec_row_layout (take ?cols (table ! i))) [0..<length table]"
    by auto
  have "map (\<lambda>i. spec_row_layout (take ?cols (table ! i))) [0..<length table] =
      map (\<lambda>row. spec_row_layout (take ?cols row)) table"
    by (rule nth_equalityI) simp_all
  with v have v': "map row_view D' = map (\<lambda>row. spec_row_layout (take ?cols row)) table"
    by simp
  let ?t = "\<lparr>t_style = Some ''Table Grid'', t_rows = D'\<rparr>"
  have "add_table_to_doc doc table tw cws
      = Inr (doc\<lparr>body := body doc @ [Table ?t, Paragraph empty_paragraph]\<rparr>)"
    using ne rl by (simp add: add_table_to_doc_def new_table_def Let_def add_paragraph_def)
  with v' show ?thesis by (intro exI [of _ ?t]) simp
qed





lemma cell_step_resets_merge_count:
  assumes "cell_step table tw cws r c (row, mc) = Inr (row', mc')"
    and "subscr Grid_cell table (int r) = Inr grow"
    and "subscr Grid_cell grow (int c) = Inr raw" and "truthy raw"
  shows "mc' = 0"
  using assms
  by (auto simp: cell_step_def Let_def truthy_def split: sum.splits option.splits if_splits)




















text \<open>
  Claim C4, as amended.  For a grid whose rows have at least as many values as the first
  row, and a width for every column, the builder returns the document with one table and
  the spacing paragraph appended, and every output row is laid out by the merge rule: a
  present value is a cell with that text, an absent value in column 0 is an empty cell of
  its own, and every other absent value is merged into the nearest preceding cell that
  is not merged away.  A step on a present value leaves the merge counter at 0.
\<close>
theorem merged_cells_layout:
  "(table \<noteq> [] \<and> (\<forall>row \<in> set table. length (hd table) \<le> length row) \<and>
    length (hd table) \<le> length col_widths \<longrightarrow>
      (\<exists>t. add_table_to_doc doc table table_words col_widths
              = Inr (doc\<lparr>body := body doc @ [Table t, Paragraph empty_paragraph]\<rparr>) \<and>
           map (map (\<lambda>cell. (cell_text cell, grid_span cell))) (t_rows t) =
             map (\<lambda>row. spec_row_layout (take (length (hd table)) row)) table)) \<and>
   (cell_step table table_words col_widths r c (row, merge_count) = Inr (row', merge_count') \<and>
    subscr Grid_cell table (int r) = Inr grid_row \<and>
    subscr Grid_cell grid_row (int c) = Inr raw \<and> truthy raw \<longrightarrow> merge_count' = 0)"
proof (intro conjI impI)
  assume "table \<noteq> [] \<and> (\<forall>row \<in> set table. length (hd table) \<le> length row) \<and>
    length (hd table) \<le> length col_widths"
  then have "\<exists>t. add_table_to_doc doc table table_words col_widths
            = Inr (doc\<lparr>body := body doc @ [Table t, Paragraph empty_paragraph]\<rparr>) \<and>
          t_style t = Some ''Table Grid'' \<and>
          map row_view (t_rows t) =
            map (\<lambda>row. spec_row_layout (take (length (hd table)) row)) table"
    by (intro add_table_to_doc_layout) simp_all
  then show "\<exists>t. add_table_to_doc doc table table_words col_widths
              = Inr (doc\<lparr>body := body doc @ [Table t, Paragraph empty_paragraph]\<rparr>) \<and>
           map (map (\<lambda>cell. (cell_text cell, grid_span cell))) (t_rows t) =
             map (\<lambda>row. spec_row_layout (take (length (hd table)) row)) table"
    unfolding row_view_def by blast
next
  assume "cell_step table table_words col_widths r c (row, merge_count) = Inr (row', merge_count') \<and>
    subscr Grid_cell table (int r) = Inr grid_row \<and>
    subscr Grid_cell grid_row (int c) = Inr raw \<and> truthy raw"
  then show "merge_count' = 0"
    using cell_step_resets_merge_count by blast
qed

lemma layout_example:
  "spec_row_layout [None, Some ''A'', None, Some ''B''] = [([], 1), (''A'', 2), (''B'', 1)]"
  by (simp add: truthy_def cell_value_text_def)

theorem merged_cells_layout_witness:
  "(\<exists>t. add_table_to_doc letter_document [[None, Some ''A'', None, Some ''B'']] [] [1, 3, 8, 2]
          = Inr (letter_document\<lparr>body := body letter_document @ [Table t, Paragraph empty_paragraph]\<rparr>) \<and>
        map (map (\<lambda>cell. (cell_text cell, grid_span cell))) (t_rows t) =
          [[([], 1), (''A'', 2), (''B'', 1)]]) \<and>
   (\<exists>row'. cell_step [[Some ''A'', None, Some ''B'']] [] [1, 3, 8] 0 2
              ([(new_tc 0)\<lparr>grid_span := 2\<rparr>, new_tc 0], 1) = Inr (row', 0))"
proof -
  have a: "\<exists>t. add_table_to_doc letter_document [[None, Some ''A'', None, Some ''B'']] [] [1, 3, 8, 2]
          = Inr (letter_document\<lparr>body := body letter_document @ [Table t, Paragraph empty_paragraph]\<rparr>) \<and>
        map (map (\<lambda>cell. (cell_text cell, grid_span cell))) (t_rows t) =
          [[([], 1), (''A'', 2), (''B'', 1)]]"
  proof -
    have h: "[[None, Some ''A'', None, Some ''B'']] \<noteq> [] \<and>
        (\<forall>row \<in> set [[None, Some ''A'', None, Some ''B'']].
           length (hd [[None, Some ''A'', None, Some ''B'']]) \<le> length row) \<and>
        length (hd [[None, Some ''A'', None, Some ''B'']]) \<le> length [1, 3, 8, 2 :: int]"
      by simp
    show ?thesis
      using mp [OF conjunct1 [OF merged_cells_layout [where table = "[[None, Some ''A'', None, Some ''B'']]"
        and col_widths = "[1, 3, 8, 2]" and doc = letter_document and table_words = "[]"]] h]
      by (simp add: layout_example del: spec_row_layout.simps)
  qed
  have t: "truthy (Some ''B'')" by (simp add: truthy_def)
  have g1: "subscr Grid_cell [[Some ''A'', None, Some ''B'']] (int 0) = Inr [Some ''A'', None, Some ''B'']"
    by (simp add: subscr_def)
  have g2: "subscr Grid_cell [Some ''A'', None, Some ''B''] (int 2) = Inr (Some ''B'')"
    by (simp add: subscr_def)
  obtain row' mc' where st: "cell_step [[Some ''A'', None, Some ''B'']] [] [1, 3, 8] 0 2
              ([(new_tc 0)\<lparr>grid_span := 2\<rparr>, new_tc 0], 1) = Inr (row', mc')"
    by (simp add: cell_step_def subscr_def truthy_def row_cells_def new_tc_def Let_def)
  from merged_cells_layout [where table = "[[Some ''A'', None, Some ''B'']]" and table_words = "[]"
      and col_widths = "[1, 3, 8]" and r = 0 and c = 2
      and row = "[(new_tc 0)\<lparr>grid_span := 2\<rparr>, new_tc 0]" and merge_count = 1
      and row' = row' and merge_count' = mc' and grid_row = "[Some ''A'', None, Some ''B'']"
      and raw = "Some ''B''"] st g1 g2 t
  have "mc' = 0" by blast
  with st a show ?thesis by blast
qed

text \<open>
  Claim C4 as stated gives the row \<^verbatim>\<open>[null, "A", null, "B"]\<close> the cells \<^verbatim>\<open>A\<close> over columns
  0 to 1 and \<^verbatim>\<open>B\<close> over columns 2 to 3.  The builder gives an empty cell in column 0,
  \<^verbatim>\<open>A\<close> over columns 1 to 2 and \<^verbatim>\<open>B\<close> in column 3.
\<close>
theorem example_row_spans:
  "(case add_table_to_doc letter_document [[None, Some ''A'', None, Some ''B'']] [] [1, 3, 8, 2] of
      Inl e \<Rightarrow> []
    | Inr doc \<Rightarrow> map (\<lambda>t. map visual_cells (t_rows t)) (tables_of doc))
   = [[[([], 0, 0), (''A'', 1, 2), (''B'', 3, 3)]]]"
  by code_simp

end
